theory Spec2Isabelle
  imports Main
begin

section \<open>Values, objects and the store\<close>

text \<open>
  The program is \<^verbatim>\<open>lib/transaction/tracer.js\<close>. Handlers are JavaScript functions: they
  receive a receiver (\<^verbatim>\<open>this\<close>) and an argument list, may read and change the shared
  context, and either return a value or throw one. Objects are identified by their
  address; \<open>nextObj\<close> is the next unused address, so an object built by \<^verbatim>\<open>new\<close> or by a
  function expression is distinct from every object that exists already.
\<close>

datatype val = Undefined | Null | Num int | Str string | Object nat | Error string

text \<open>
  Modelled from the spec: transactions, their traces and segments are collaborators
  outside the sources. A transaction is an object that exposes the root segment of
  its trace; \<open>creator\<close> is the agent that built it.
\<close>

datatype Segment = Segment nat

record Trace =
  root :: Segment

record Transaction =
  txid :: nat
  creator :: nat
  trace :: Trace

text \<open>
  Modelled from the spec: \<^verbatim>\<open>tracer/state.js\<close> is not part of the sources. A State binds a
  transaction, a segment and the handler it guards, and has no behaviour beyond its
  three fields. The handler is held by reference (the address of the function object).
\<close>

record State =
  transaction :: Transaction
  segment :: Segment
  handler :: nat

text \<open>
  Modelled from the spec: the Context class is not part of the sources. It holds the
  current State or none in its field \<open>state\<close> (the field the tracer reads), \<open>enter\<close>
  makes a state current and keeps what was current before, \<open>exit\<close> restores what was
  current immediately before the matching \<open>enter\<close>, without checking its argument.
\<close>

record Context =
  state :: "State option"
  saved :: "State option list"

text \<open>
  Modelled from the spec: \<^verbatim>\<open>enter(state)\<close> of the missing Context class makes the
  state current and keeps the one that was current, to be restored later.
\<close>

definition enter :: "State \<Rightarrow> Context \<Rightarrow> Context" where
  "enter st c = \<lparr>state = Some st, saved = state c # saved c\<rparr>"

text \<open>
  Modelled from the spec: \<^verbatim>\<open>exit(state)\<close> of the missing Context class restores what
  was current immediately before the last state was entered; its argument, whatever
  the caller's variable holds, is not validated.
\<close>

definition exit :: "State option \<Rightarrow> Context \<Rightarrow> Context" where
  "exit st c =
     (case saved c of
        [] \<Rightarrow> \<lparr>state = None, saved = []\<rparr>
      | p # ps \<Rightarrow> \<lparr>state = p, saved = ps\<rparr>)"

text \<open>
  The store: the Context objects by address, the captured variable \<^verbatim>\<open>state\<close> of each
  closure built by \<^verbatim>\<open>callbackProxy\<close> by address, and the allocator.
\<close>

record world =
  contexts :: "nat \<Rightarrow> Context"
  vars :: "nat \<Rightarrow> State option"
  nextObj :: nat

text \<open>A function object: its address and what a call of it does (\<open>Inl\<close> is a throw).\<close>

record fn =
  fid :: nat
  code :: "val \<Rightarrow> val list \<Rightarrow> world \<Rightarrow> (val + val) \<times> world"

definition updContext :: "nat \<Rightarrow> (Context \<Rightarrow> Context) \<Rightarrow> world \<Rightarrow> world" where
  "updContext c f w = w\<lparr>contexts := (contexts w)(c := f (contexts w c))\<rparr>"

definition current :: "nat \<Rightarrow> world \<Rightarrow> State option" where
  "current c w = state (contexts w c)"

text \<open>
  Modelled from the spec: the agent (the transaction factory) is not part of the
  sources. \<^verbatim>\<open>createTransaction()\<close> builds a new Transaction object, which exposes its
  root segment (a new object as well) through its trace.
\<close>

definition createTransaction :: "nat \<Rightarrow> world \<Rightarrow> Transaction \<times> world" where
  "createTransaction ag w =
     (\<lparr>txid = nextObj w, creator = ag, trace = \<lparr>root = Segment (Suc (nextObj w))\<rparr>\<rparr>,
      w\<lparr>nextObj := nextObj w + 2\<rparr>)"

text \<open>
  Modelled from the spec: \<^verbatim>\<open>getTrace()\<close> of the missing Transaction class gives the
  trace, whose \<open>root\<close> is the root segment.
\<close>

definition getTrace :: "Transaction \<Rightarrow> Trace" where
  "getTrace t = trace t"

section \<open>The tracer\<close>

record Tracer =
  numTransactions :: nat
  agent :: nat
  "context" :: nat

text \<open>
  The constructor. An argument is the address of an object, or absent (\<^verbatim>\<open>null\<close> or
  \<^verbatim>\<open>undefined\<close>, the falsy values an object parameter can take): \<open>None\<close>.
\<close>

definition Tracer :: "nat option \<Rightarrow> nat option \<Rightarrow> val + Tracer" where
  "Tracer agent' context' =
     (case agent' of
        None \<Rightarrow> Inl (Error ''Must be initialized with an agent.'')
      | Some a \<Rightarrow>
          (case context' of
             None \<Rightarrow> Inl (Error ''Must include shared context.'')
           | Some c \<Rightarrow> Inr \<lparr>numTransactions = 0, agent = a, context = c\<rparr>))"

definition wrapTransactionInvocation ::
  "Tracer \<Rightarrow> fn \<Rightarrow> val \<Rightarrow> val list \<Rightarrow> world \<Rightarrow> (val + val) \<times> world" where
  "wrapTransactionInvocation self h this arguments w =
     (let (transaction', w1) = createTransaction (agent self) w;
          state' = \<lparr>transaction = transaction',
                    segment = root (getTrace transaction'),
                    handler = fid h\<rparr>;
          w2 = updContext (context self) (enter state') w1;
          (returned, w3) = code h this arguments w2
      in case returned of
           Inl e \<Rightarrow> (Inl e, w3)
         | Inr v \<Rightarrow> (Inr v, updContext (context self) (exit (Some state')) w3))"

definition transactionProxy :: "Tracer \<Rightarrow> fn \<Rightarrow> world \<Rightarrow> fn \<times> world" where
  "transactionProxy self h w =
     (\<lparr>fid = nextObj w, code = wrapTransactionInvocation self h\<rparr>,
      w\<lparr>nextObj := Suc (nextObj w)\<rparr>)"

definition wrapSegmentInvocation ::
  "Tracer \<Rightarrow> fn \<Rightarrow> val \<Rightarrow> val list \<Rightarrow> world \<Rightarrow> (val + val) \<times> world" where
  "wrapSegmentInvocation self h this arguments w =
     (case state (contexts w (context self)) of
        None \<Rightarrow> code h this arguments w
      | Some st \<Rightarrow>
          (let state' = \<lparr>transaction = transaction st, segment = segment st,
                         handler = fid h\<rparr>;
               w2 = updContext (context self) (enter state') w;
               (returned, w3) = code h this arguments w2
           in case returned of
                Inl e \<Rightarrow> (Inl e, w3)
              | Inr v \<Rightarrow> (Inr v, updContext (context self) (exit (Some state')) w3)))"

definition segmentProxy :: "Tracer \<Rightarrow> fn \<Rightarrow> world \<Rightarrow> fn \<times> world" where
  "segmentProxy self h w =
     (\<lparr>fid = nextObj w, code = wrapSegmentInvocation self h\<rparr>,
      w\<lparr>nextObj := Suc (nextObj w)\<rparr>)"

text \<open>
  The closure of \<^verbatim>\<open>callbackProxy\<close> shares the variable \<^verbatim>\<open>state\<close> with the activation
  that built it (address \<open>a\<close> in \<open>vars\<close>); each invocation assigns it, and reads it
  again for the \<^verbatim>\<open>exit\<close> after the handler has run. Reading a field of an absent
  state is a TypeError.
\<close>

definition wrapCallbackInvocation ::
  "Tracer \<Rightarrow> nat \<Rightarrow> fn \<Rightarrow> val \<Rightarrow> val list \<Rightarrow> world \<Rightarrow> (val + val) \<times> world" where
  "wrapCallbackInvocation self a h this arguments w =
     (case vars w a of
        None \<Rightarrow> (Inl (Error ''TypeError''), w)
      | Some st \<Rightarrow>
          (let state' = \<lparr>transaction = transaction st, segment = segment st,
                         handler = fid h\<rparr>;
               w1 = w\<lparr>vars := (vars w)(a := Some state')\<rparr>;
               w2 = updContext (context self) (enter state') w1;
               (returned, w3) = code h this arguments w2
           in case returned of
                Inl e \<Rightarrow> (Inl e, w3)
              | Inr v \<Rightarrow> (Inr v, updContext (context self) (exit (vars w3 a)) w3)))"

definition callbackProxy :: "Tracer \<Rightarrow> fn \<Rightarrow> world \<Rightarrow> fn \<times> world" where
  "callbackProxy self h w =
     (case state (contexts w (context self)) of
        None \<Rightarrow> (h, w)
      | Some st \<Rightarrow>
          (\<lparr>fid = Suc (nextObj w), code = wrapCallbackInvocation self (nextObj w) h\<rparr>,
           w\<lparr>vars := (vars w)(nextObj w := Some st), nextObj := nextObj w + 2\<rparr>))"

section \<open>Scenarios\<close>

text \<open>
  A nesting of wrapped calls: \<open>Origin k cs\<close> is a call of the function that
  \<^verbatim>\<open>transactionProxy\<close> returns for the handler at address \<open>k\<close>, \<open>Join k cs\<close> the same
  for \<^verbatim>\<open>segmentProxy\<close>; the handler's body invokes the wrapped functions \<open>cs\<close> one
  after the other and returns \<^verbatim>\<open>undefined\<close>.
\<close>

datatype nesting = Origin nat "nesting list" | Join nat "nesting list"

fun runAll :: "(world \<Rightarrow> (val + val) \<times> world) list \<Rightarrow> world \<Rightarrow> (val + val) \<times> world" where
  "runAll [] w = (Inr Undefined, w)"
| "runAll (c # cs) w =
     (case c w of
        (Inl e, w') \<Rightarrow> (Inl e, w')
      | (Inr v, w') \<Rightarrow> runAll cs w')"

primrec invoke :: "nesting \<Rightarrow> Tracer \<Rightarrow> world \<Rightarrow> (val + val) \<times> world" where
  "invoke (Origin k cs) =
     (\<lambda>self w.
        let (f, w1) = transactionProxy self
                        \<lparr>fid = k, code = \<lambda>this arguments. runAll (map (\<lambda>c. invoke c self) cs)\<rparr> w
        in code f Undefined [] w1)"
| "invoke (Join k cs) =
     (\<lambda>self w.
        let (f, w1) = segmentProxy self
                        \<lparr>fid = k, code = \<lambda>this arguments. runAll (map (\<lambda>c. invoke c self) cs)\<rparr> w
        in code f Undefined [] w1)"

text \<open>
  A function is balanced when every call of it returns normally and leaves every
  context as it found it.
\<close>

definition balanced :: "(world \<Rightarrow> (val + val) \<times> world) \<Rightarrow> bool" where
  "balanced c = (\<forall>w. (\<exists>v. fst (c w) = Inr v) \<and> contexts (snd (c w)) = contexts w)"

text \<open>
  What can happen between the moment \<^verbatim>\<open>callbackProxy\<close> returns a function \<open>f\<close> and a
  later invocation of \<open>f\<close>: earlier invocations of \<open>f\<close>, states entered and left on
  the context, and any other code \<open>Run g\<close> (calls of other functions, wrapped or not,
  further wrapping, allocation). \<open>holds st a w\<close> says that the closure variable at
  \<open>a\<close> exists in \<open>w\<close> and holds a state on the transaction and the segment of \<open>st\<close>;
  \<open>keeps st a g\<close> that the code \<open>g\<close>, which has no access to the variable other
  than by invoking the closure, keeps that so.
\<close>

datatype event = Invoke val "val list" | Enter State | Exit | Run "world \<Rightarrow> world"

fun happen :: "Tracer \<Rightarrow> fn \<Rightarrow> event list \<Rightarrow> world \<Rightarrow> world" where
  "happen self f [] w = w"
| "happen self f (Invoke this arguments # es) w =
     happen self f es (snd (code f this arguments w))"
| "happen self f (Enter s # es) w = happen self f es (updContext (context self) (enter s) w)"
| "happen self f (Exit # es) w = happen self f es (updContext (context self) (exit None) w)"
| "happen self f (Run g # es) w = happen self f es (g w)"

definition holds :: "State \<Rightarrow> nat \<Rightarrow> world \<Rightarrow> bool" where
  "holds st a w =
     (a < nextObj w \<and>
      (case vars w a of
         None \<Rightarrow> False
       | Some sv \<Rightarrow> transaction sv = transaction st \<and> segment sv = segment st))"

definition keeps :: "State \<Rightarrow> nat \<Rightarrow> (world \<Rightarrow> world) \<Rightarrow> bool" where
  "keeps st a g = (\<forall>x. holds st a x \<longrightarrow> holds st a (g x))"

text \<open>
  The state and the world in which each wrapper starts its handler: the wrapper of
  \<^verbatim>\<open>transactionProxy\<close> enters a state on the transaction it has just created, the
  other two a state that takes the transaction and the segment of a given state.
\<close>

definition originState :: "Tracer \<Rightarrow> fn \<Rightarrow> world \<Rightarrow> State" where
  "originState self h w =
     \<lparr>transaction = fst (createTransaction (agent self) w),
      segment = root (getTrace (fst (createTransaction (agent self) w))),
      handler = fid h\<rparr>"

definition originEntry :: "Tracer \<Rightarrow> fn \<Rightarrow> world \<Rightarrow> world" where
  "originEntry self h w =
     updContext (context self) (enter (originState self h w))
       (snd (createTransaction (agent self) w))"

definition inherit :: "State \<Rightarrow> fn \<Rightarrow> State" where
  "inherit st h = \<lparr>transaction = transaction st, segment = segment st, handler = fid h\<rparr>"

definition joinEntry :: "Tracer \<Rightarrow> fn \<Rightarrow> State \<Rightarrow> world \<Rightarrow> world" where
  "joinEntry self h st w = updContext (context self) (enter (inherit st h)) w"

definition callbackEntry :: "Tracer \<Rightarrow> nat \<Rightarrow> fn \<Rightarrow> State \<Rightarrow> world \<Rightarrow> world" where
  "callbackEntry self a h st w =
     updContext (context self) (enter (inherit st h))
       (w\<lparr>vars := (vars w)(a := Some (inherit st h))\<rparr>)"

text \<open>
  Concrete inputs. In \<open>world0\<close> a context (address 0), an agent (address 1) and three
  handlers exist, and nothing is current: \<open>echo\<close> returns its receiver, \<open>thrower\<close>
  throws, \<open>probe\<close> returns the address of the transaction it finds current on
  context 0. \<open>world1\<close> is the world inside a call of the wrapper of
  \<^verbatim>\<open>transactionProxy\<close> for \<open>echo\<close>: transaction 5 with root segment 6 is current.
  \<open>world2\<close> is \<open>world1\<close> after \<^verbatim>\<open>callbackProxy\<close> has wrapped \<open>probe\<close> there and the
  context has gone back to none; in \<open>world3\<close> another transaction has become current
  after that. \<open>world4\<close> is \<open>world1\<close> after three more handlers have been created at
  addresses 7, 8 and 9: \<open>swallow\<close> calls a wrapped \<open>thrower\<close> twice, catching what it
  throws, \<open>chain\<close> returns like \<open>probe\<close> after wrapping \<open>probe\<close> as a callback, and
  \<open>subtract\<close> returns its receiver minus its argument.
\<close>

definition emptyContext :: Context where
  "emptyContext = \<lparr>state = None, saved = []\<rparr>"

definition world0 :: world where
  "world0 = \<lparr>contexts = (\<lambda>_. emptyContext), vars = (\<lambda>_. None), nextObj = 5\<rparr>"

definition tracer0 :: Tracer where
  "tracer0 = \<lparr>numTransactions = 0, agent = 1, context = 0\<rparr>"

definition echo :: fn where
  "echo = \<lparr>fid = 2, code = (\<lambda>this arguments w. (Inr this, w))\<rparr>"

definition thrower :: fn where
  "thrower = \<lparr>fid = 3, code = (\<lambda>this arguments w. (Inl (Error ''boom''), w))\<rparr>"

definition probe :: fn where
  "probe = \<lparr>fid = 4, code = (\<lambda>this arguments w.
     (case state (contexts w 0) of
        None \<Rightarrow> (Inr Undefined, w)
      | Some st \<Rightarrow> (Inr (Object (txid (transaction st))), w)))\<rparr>"

definition state1 :: State where
  "state1 = \<lparr>transaction = \<lparr>txid = 5, creator = 1, trace = \<lparr>root = Segment 6\<rparr>\<rparr>,
             segment = Segment 6, handler = 2\<rparr>"

definition world1 :: world where
  "world1 = originEntry tracer0 echo world0"

definition world2 :: world where
  "world2 = updContext 0 (exit None) (snd (callbackProxy tracer0 probe world1))"

definition state3 :: State where
  "state3 = \<lparr>transaction = \<lparr>txid = 9, creator = 1, trace = \<lparr>root = Segment 10\<rparr>\<rparr>,
             segment = Segment 10, handler = 3\<rparr>"

definition world3 :: world where
  "world3 = originEntry tracer0 thrower world2"


definition chain :: fn where
  "chain = \<lparr>fid = 8, code = (\<lambda>this arguments w.
     (case state (contexts w 0) of
        None \<Rightarrow> (Inr Undefined, w)
      | Some st \<Rightarrow>
          (Inr (Object (txid (transaction st))), snd (callbackProxy tracer0 probe w))))\<rparr>"

definition subtract :: fn where
  "subtract = \<lparr>fid = 9, code = (\<lambda>this arguments w.
     (case this of
        Num n \<Rightarrow>
          (case arguments of
             [Num m] \<Rightarrow> (Inr (Num (n - m)), w)
           | _ \<Rightarrow> (Inr Undefined, w))
      | _ \<Rightarrow> (Inr Undefined, w)))\<rparr>"

definition world4 :: world where
  "world4 = world1\<lparr>nextObj := 10\<rparr>"

section \<open>Shared facts\<close>

lemma exit_enter: "exit s (enter st c) = c"
  by (simp add: exit_def enter_def)

lemma state_enter: "state (enter st c) = Some st"
  by (simp add: enter_def)


lemma contexts_updContext:
  "contexts (updContext c f w) = (contexts w)(c := f (contexts w c))"
  by (simp add: updContext_def)

lemma vars_updContext: "vars (updContext c f w) = vars w"
  by (simp add: updContext_def)

lemma nextObj_updContext: "nextObj (updContext c f w) = nextObj w"
  by (simp add: updContext_def)

lemma current_updContext: "current c (updContext c f w) = state (f (contexts w c))"
  by (simp add: current_def updContext_def)


lemma contexts_exit_enter:
  "contexts w3 = contexts (updContext c (enter st) w) \<Longrightarrow>
   contexts (updContext c (exit s) w3) = contexts w"
  by (simp add: updContext_def exit_enter)

text \<open>Each wrapper, in terms of the world in which it starts its handler.\<close>

lemma code_transactionProxy:
  "code (fst (transactionProxy self h w0)) = wrapTransactionInvocation self h"
  by (simp add: transactionProxy_def)

lemma code_segmentProxy:
  "code (fst (segmentProxy self h w0)) = wrapSegmentInvocation self h"
  by (simp add: segmentProxy_def)

lemma code_callbackProxy:
  "current (context self) w0 = Some st \<Longrightarrow>
   code (fst (callbackProxy self h w0)) = wrapCallbackInvocation self (nextObj w0) h"
  by (simp add: callbackProxy_def current_def)

lemma callbackProxy_fn:
  "current (context self) w0 = Some st \<Longrightarrow>
   fst (callbackProxy self h w0)
     = \<lparr>fid = Suc (nextObj w0), code = wrapCallbackInvocation self (nextObj w0) h\<rparr>"
  by (simp add: callbackProxy_def current_def)

lemma vars_callbackProxy:
  "current (context self) w0 = Some st \<Longrightarrow>
   vars (snd (callbackProxy self h w0)) (nextObj w0) = Some st"
  by (simp add: callbackProxy_def current_def)

lemma wrapTransactionInvocation_run:
  "wrapTransactionInvocation self h this arguments w =
     (case code h this arguments (originEntry self h w) of
        (Inl e, w3) \<Rightarrow> (Inl e, w3)
      | (Inr v, w3) \<Rightarrow>
          (Inr v, updContext (context self) (exit (Some (originState self h w))) w3))"
  by (simp add: wrapTransactionInvocation_def originEntry_def originState_def Let_def
      split: prod.split sum.split)

lemma wrapSegmentInvocation_run:
  "current (context self) w = Some st \<Longrightarrow>
   wrapSegmentInvocation self h this arguments w =
     (case code h this arguments (joinEntry self h st w) of
        (Inl e, w3) \<Rightarrow> (Inl e, w3)
      | (Inr v, w3) \<Rightarrow> (Inr v, updContext (context self) (exit (Some (inherit st h))) w3))"
  by (simp add: wrapSegmentInvocation_def joinEntry_def inherit_def current_def Let_def
      split: prod.split sum.split)

lemma wrapCallbackInvocation_run:
  "vars w a = Some st \<Longrightarrow>
   wrapCallbackInvocation self a h this arguments w =
     (case code h this arguments (callbackEntry self a h st w) of
        (Inl e, w3) \<Rightarrow> (Inl e, w3)
      | (Inr v, w3) \<Rightarrow> (Inr v, updContext (context self) (exit (vars w3 a)) w3))"
  by (simp add: wrapCallbackInvocation_def callbackEntry_def inherit_def Let_def
      split: prod.split sum.split)

lemma fst_case_outcome:
  "fst (case p of (Inl e, w3) \<Rightarrow> (Inl e, w3) | (Inr v, w3) \<Rightarrow> (Inr v, g v w3)) = fst p"
  by (simp split: prod.split sum.split)

lemma nextObj_case_outcome:
  "nextObj (snd (case p of (Inl e, w3) \<Rightarrow> (Inl e, w3)
                          | (Inr v, w3) \<Rightarrow> (Inr v, updContext c (g w3) w3))) = nextObj (snd p)"
  by (simp add: nextObj_updContext split: prod.split sum.split)

lemma vars_case_outcome:
  "vars (snd (case p of (Inl e, w3) \<Rightarrow> (Inl e, w3)
                       | (Inr v, w3) \<Rightarrow> (Inr v, updContext c (g w3) w3))) = vars (snd p)"
  by (simp add: vars_updContext split: prod.split sum.split)

lemma current_originEntry:
  "current (context self) (originEntry self h w) = Some (originState self h w)"
  by (simp add: originEntry_def current_updContext state_enter)

lemma current_joinEntry:
  "current (context self) (joinEntry self h st w) = Some (inherit st h)"
  by (simp add: joinEntry_def current_updContext state_enter)

lemma current_callbackEntry:
  "current (context self) (callbackEntry self a h st w) = Some (inherit st h)"
  by (simp add: callbackEntry_def current_updContext state_enter)

lemma vars_callbackEntry: "vars (callbackEntry self a h st w) a = Some (inherit st h)"
  by (simp add: callbackEntry_def vars_updContext)

lemma nextObj_callbackEntry: "nextObj (callbackEntry self a h st w) = nextObj w"
  by (simp add: callbackEntry_def nextObj_updContext)

lemma vars_originEntry: "vars (originEntry self h w) = vars w"
  by (simp add: originEntry_def vars_updContext createTransaction_def)

lemma nextObj_originEntry: "nextObj (originEntry self h w) = nextObj w + 2"
  by (simp add: originEntry_def nextObj_updContext createTransaction_def)

lemma nextObj_wrapTransactionInvocation:
  assumes "\<And>t a x. nextObj x \<le> nextObj (snd (code h t a x))"
  shows "nextObj w + 2 \<le> nextObj (snd (wrapTransactionInvocation self h this arguments w))"
proof -
  have "nextObj (originEntry self h w)
          \<le> nextObj (snd (code h this arguments (originEntry self h w)))"
    by (rule assms)
  then show ?thesis
    by (simp add: wrapTransactionInvocation_run nextObj_originEntry nextObj_case_outcome)
qed

text \<open>The closure variable keeps its transaction and segment.\<close>

lemma holds_updContext: "holds st a (updContext c f w) = holds st a w"
  by (simp add: holds_def vars_updContext nextObj_updContext)

lemma holds_case_outcome:
  "holds st a (snd (case p of (Inl e, w3) \<Rightarrow> (Inl e, w3)
                            | (Inr v, w3) \<Rightarrow> (Inr v, updContext c (g w3) w3)))
     = holds st a (snd p)"
  by (simp add: holds_def vars_case_outcome nextObj_case_outcome)

lemma holds_callbackProxy:
  "current (context self) w0 = Some st \<Longrightarrow>
   holds st (nextObj w0) (snd (callbackProxy self h w0))"
  by (simp add: holds_def callbackProxy_def current_def)

lemma holds_wrapCallbackInvocation:
  assumes frame: "\<And>t b. keeps st a (\<lambda>x. snd (code h t b x))"
    and inv: "holds st a w"
  shows "holds st a (snd (wrapCallbackInvocation self a h this arguments w))"
proof -
  from inv obtain sv where sv: "vars w a = Some sv"
    and eq: "transaction sv = transaction st" "segment sv = segment st"
    and al: "a < nextObj w"
    by (auto simp: holds_def split: option.splits)
  have "holds st a (callbackEntry self a h sv w)"
    using eq al
    by (simp add: holds_def vars_callbackEntry nextObj_callbackEntry inherit_def)
  then have "holds st a (snd (code h this arguments (callbackEntry self a h sv w)))"
    using frame [of this arguments] by (simp add: keeps_def)
  then show ?thesis
    by (simp add: wrapCallbackInvocation_run [OF sv] holds_case_outcome)
qed

lemma holds_happen:
  assumes frame: "\<And>t b. keeps st a (\<lambda>x. snd (code h t b x))"
  shows "(\<And>g. Run g \<in> set es \<Longrightarrow> keeps st a g) \<Longrightarrow> holds st a w \<Longrightarrow>
    holds st a (happen self \<lparr>fid = k, code = wrapCallbackInvocation self a h\<rparr> es w)"
proof (induction es arbitrary: w)
  case Nil
  then show ?case by simp
next
  case (Cons e es)
  have rest: "\<And>g. Run g \<in> set es \<Longrightarrow> keeps st a g"
    using Cons.prems(1) by simp
  show ?case
  proof (cases e)
    case (Invoke this arguments)
    have "holds st a (snd (wrapCallbackInvocation self a h this arguments w))"
      using frame Cons.prems(2) by (rule holds_wrapCallbackInvocation)
    then show ?thesis using Cons.IH [OF rest] Invoke by simp
  next
    case (Enter s)
    have "holds st a (updContext (context self) (enter s) w)"
      using Cons.prems(2) by (simp add: holds_updContext)
    then show ?thesis using Cons.IH [OF rest] Enter by simp
  next
    case Exit
    have "holds st a (updContext (context self) (exit None) w)"
      using Cons.prems(2) by (simp add: holds_updContext)
    then show ?thesis using Cons.IH [OF rest] Exit by simp
  next
    case (Run g)
    have "keeps st a g" using Cons.prems(1) Run by simp
    then have "holds st a (g w)"
      using Cons.prems(2) by (simp add: keeps_def)
    then show ?thesis using Cons.IH [OF rest] Run by simp
  qed
qed

text \<open>
  What the tracer offers to a handler keeps the variable of another closure:
  wrapping, entering and leaving states, invoking wrapped functions whose handlers
  keep it, and one thing after another.
\<close>

lemma keeps_comp: "keeps st a g1 \<Longrightarrow> keeps st a g2 \<Longrightarrow> keeps st a (\<lambda>x. g2 (g1 x))"
  by (simp add: keeps_def)

lemma keeps_updContext: "keeps st a (updContext c f)"
  by (simp add: keeps_def holds_updContext)

lemma keeps_transactionProxy: "keeps st a (\<lambda>x. snd (transactionProxy self h x))"
  by (auto simp: keeps_def holds_def transactionProxy_def split: option.splits)

lemma keeps_segmentProxy: "keeps st a (\<lambda>x. snd (segmentProxy self h x))"
  by (auto simp: keeps_def holds_def segmentProxy_def split: option.splits)

lemma keeps_callbackProxy: "keeps st a (\<lambda>x. snd (callbackProxy self h x))"
  by (auto simp: keeps_def holds_def callbackProxy_def split: option.splits)

lemma keeps_wrapTransactionInvocation:
  assumes "\<And>t b. keeps st a (\<lambda>x. snd (code h t b x))"
  shows "keeps st a (\<lambda>x. snd (wrapTransactionInvocation self h this arguments x))"
  unfolding keeps_def
proof (intro allI impI)
  fix x assume "holds st a x"
  then have "holds st a (originEntry self h x)"
    by (simp add: originEntry_def holds_updContext)
      (auto simp: holds_def createTransaction_def split: option.splits)
  then have "holds st a (snd (code h this arguments (originEntry self h x)))"
    using assms [of this arguments] by (simp add: keeps_def)
  then show "holds st a (snd (wrapTransactionInvocation self h this arguments x))"
    by (simp add: wrapTransactionInvocation_run holds_case_outcome)
qed

lemma keeps_wrapSegmentInvocation:
  assumes "\<And>t b. keeps st a (\<lambda>x. snd (code h t b x))"
  shows "keeps st a (\<lambda>x. snd (wrapSegmentInvocation self h this arguments x))"
  unfolding keeps_def
proof (intro allI impI)
  fix x assume x: "holds st a x"
  show "holds st a (snd (wrapSegmentInvocation self h this arguments x))"
  proof (cases "current (context self) x")
    case None
    then have "wrapSegmentInvocation self h this arguments x = code h this arguments x"
      by (simp add: wrapSegmentInvocation_def current_def)
    then show ?thesis using assms [of this arguments] x by (simp add: keeps_def)
  next
    case (Some s)
    have "holds st a (joinEntry self h s x)"
      using x by (simp add: joinEntry_def holds_updContext)
    then have "holds st a (snd (code h this arguments (joinEntry self h s x)))"
      using assms [of this arguments] by (simp add: keeps_def)
    then show ?thesis
      by (simp add: wrapSegmentInvocation_run [OF Some] holds_case_outcome)
  qed
qed

lemma keeps_wrapCallbackInvocation:
  assumes "\<And>t b. keeps st a (\<lambda>x. snd (code h t b x))"
  shows "keeps st a (\<lambda>x. snd (wrapCallbackInvocation self a h this arguments x))"
  unfolding keeps_def using assms by (blast intro: holds_wrapCallbackInvocation)

text \<open>Balanced handlers give balanced wrappers.\<close>

lemma balanced_runAll:
  "(\<And>c. c \<in> set cs \<Longrightarrow> balanced c) \<Longrightarrow> balanced (runAll cs)"
proof (induction cs)
  case Nil
  then show ?case by (simp add: balanced_def)
next
  case (Cons c cs)
  have c: "balanced c" using Cons.prems by simp
  have cs: "balanced (runAll cs)" using Cons by simp
  show ?case
    unfolding balanced_def
  proof
    fix w
    from c obtain v where v: "c w = (Inr v, snd (c w))"
      and k: "contexts (snd (c w)) = contexts w"
      unfolding balanced_def by (metis prod.collapse)
    have "runAll (c # cs) w = runAll cs (snd (c w))"
      by (subst runAll.simps, subst v) simp
    then show "(\<exists>v. fst (runAll (c # cs) w) = Inr v) \<and>
        contexts (snd (runAll (c # cs) w)) = contexts w"
      using cs k unfolding balanced_def by simp
  qed
qed

lemma balanced_wrapTransactionInvocation:
  assumes "balanced (code h this arguments)"
  shows "balanced (wrapTransactionInvocation self h this arguments)"
  unfolding balanced_def
proof
  fix w
  let ?e = "originEntry self h w"
  from assms obtain v
    where v: "code h this arguments ?e = (Inr v, snd (code h this arguments ?e))"
      and k: "contexts (snd (code h this arguments ?e)) = contexts ?e"
    unfolding balanced_def by (metis prod.collapse)
  have r: "wrapTransactionInvocation self h this arguments w
      = (Inr v, updContext (context self) (exit (Some (originState self h w)))
                  (snd (code h this arguments ?e)))"
    by (subst wrapTransactionInvocation_run, subst v) simp
  have "contexts (snd (code h this arguments ?e))
      = contexts (updContext (context self) (enter (originState self h w))
          (snd (createTransaction (agent self) w)))"
    using k by (simp add: originEntry_def)
  then have "contexts (updContext (context self) (exit (Some (originState self h w)))
                  (snd (code h this arguments ?e)))
      = contexts (snd (createTransaction (agent self) w))"
    by (rule contexts_exit_enter)
  then show "(\<exists>v. fst (wrapTransactionInvocation self h this arguments w) = Inr v) \<and>
     contexts (snd (wrapTransactionInvocation self h this arguments w)) = contexts w"
    by (simp add: r createTransaction_def)
qed

lemma balanced_wrapSegmentInvocation:
  assumes "balanced (code h this arguments)"
  shows "balanced (wrapSegmentInvocation self h this arguments)"
  unfolding balanced_def
proof
  fix w
  show "(\<exists>v. fst (wrapSegmentInvocation self h this arguments w) = Inr v) \<and>
     contexts (snd (wrapSegmentInvocation self h this arguments w)) = contexts w"
  proof (cases "current (context self) w")
    case None
    then have "wrapSegmentInvocation self h this arguments w = code h this arguments w"
      by (simp add: wrapSegmentInvocation_def current_def)
    then show ?thesis using assms by (simp add: balanced_def)
  next
    case (Some st)
    let ?e = "joinEntry self h st w"
    from assms obtain v
      where v: "code h this arguments ?e = (Inr v, snd (code h this arguments ?e))"
        and k: "contexts (snd (code h this arguments ?e)) = contexts ?e"
      unfolding balanced_def by (metis prod.collapse)
    have r: "wrapSegmentInvocation self h this arguments w
      = (Inr v, updContext (context self) (exit (Some (inherit st h)))
                  (snd (code h this arguments ?e)))"
      by (subst wrapSegmentInvocation_run [OF Some], subst v) simp
    have "contexts (snd (code h this arguments ?e))
      = contexts (updContext (context self) (enter (inherit st h)) w)"
      using k by (simp add: joinEntry_def)
    then have "contexts (updContext (context self) (exit (Some (inherit st h)))
                  (snd (code h this arguments ?e))) = contexts w"
      by (rule contexts_exit_enter)
    then show ?thesis by (simp add: r)
  qed
qed

lemma balanced_alloc:
  "balanced c \<Longrightarrow> balanced (\<lambda>w. c (w\<lparr>nextObj := n w\<rparr>))"
  by (simp add: balanced_def)

lemma balanced_invoke: "balanced (invoke c self)"
proof (induction c)
  case (Origin k cs)
  have "balanced (runAll (map (\<lambda>c. invoke c self) cs))"
    by (rule balanced_runAll) (auto simp: Origin)
  then have "balanced (wrapTransactionInvocation self
      \<lparr>fid = k, code = \<lambda>this arguments. runAll (map (\<lambda>c. invoke c self) cs)\<rparr> Undefined [])"
    by (intro balanced_wrapTransactionInvocation) simp
  then have "balanced (\<lambda>w. wrapTransactionInvocation self
      \<lparr>fid = k, code = \<lambda>this arguments. runAll (map (\<lambda>c. invoke c self) cs)\<rparr> Undefined []
        (w\<lparr>nextObj := Suc (nextObj w)\<rparr>))"
    by (rule balanced_alloc)
  then show ?case by (simp add: transactionProxy_def)
next
  case (Join k cs)
  have "balanced (runAll (map (\<lambda>c. invoke c self) cs))"
    by (rule balanced_runAll) (auto simp: Join)
  then have "balanced (wrapSegmentInvocation self
      \<lparr>fid = k, code = \<lambda>this arguments. runAll (map (\<lambda>c. invoke c self) cs)\<rparr> Undefined [])"
    by (intro balanced_wrapSegmentInvocation) simp
  then have "balanced (\<lambda>w. wrapSegmentInvocation self
      \<lparr>fid = k, code = \<lambda>this arguments. runAll (map (\<lambda>c. invoke c self) cs)\<rparr> Undefined []
        (w\<lparr>nextObj := Suc (nextObj w)\<rparr>))"
    by (rule balanced_alloc)
  then show ?case by (simp add: segmentProxy_def)
qed

text \<open>The concrete worlds and handlers.\<close>

lemma current_world0: "current c world0 = None"
  by (simp add: current_def world0_def emptyContext_def)

lemma current_world1: "current 0 world1 = Some state1"
  by (simp add: world1_def originEntry_def originState_def tracer0_def world0_def echo_def
      createTransaction_def getTrace_def current_updContext state_enter state1_def)

lemma contexts_world1:
  "contexts world1 = (\<lambda>_. emptyContext)(0 := \<lparr>state = Some state1, saved = [None]\<rparr>)"
  by (simp add: world1_def originEntry_def originState_def tracer0_def world0_def echo_def
      createTransaction_def getTrace_def contexts_updContext enter_def emptyContext_def
      state1_def)

lemma nextObj_world1: "nextObj world1 = 7"
  by (simp add: world1_def originEntry_def tracer0_def world0_def
      createTransaction_def nextObj_updContext)

lemma vars_world2: "vars world2 7 = Some state1"
  using vars_callbackProxy [of tracer0 world1 state1 probe] current_world1
  by (simp add: world2_def vars_updContext tracer0_def nextObj_world1)

lemma current_world2: "current 0 world2 = None"
  by (simp add: world2_def current_updContext callbackProxy_def tracer0_def
      exit_def contexts_world1)

lemma nextObj_world2: "nextObj world2 = 9"
  using current_world1
  by (simp add: world2_def nextObj_updContext callbackProxy_def tracer0_def current_def
      nextObj_world1)

lemma vars_world3: "vars world3 7 = Some state1"
  by (simp add: world3_def vars_originEntry vars_world2)

lemma current_world3: "current 0 world3 = Some state3"
  using current_originEntry [of tracer0 thrower world2]
  by (simp add: world3_def tracer0_def originState_def createTransaction_def getTrace_def
      nextObj_world2 thrower_def state3_def)

lemma code_echo: "code echo this arguments w = (Inr this, w)"
  by (simp add: echo_def)

lemma code_thrower: "code thrower this arguments w = (Inl (Error ''boom''), w)"
  by (simp add: thrower_def)

lemma code_probe:
  "current 0 w = Some st \<Longrightarrow>
   code probe this arguments w = (Inr (Object (txid (transaction st))), w)"
  by (simp add: probe_def current_def)

lemma snd_code_probe: "snd (code probe this arguments w) = w"
  by (simp add: probe_def split: option.split)

lemma current_world4: "current 0 world4 = Some state1"
  using current_world1 by (simp add: world4_def current_def)

lemma nextObj_world4: "nextObj world4 = 10"
  by (simp add: world4_def)

lemma code_subtract:
  "code subtract (Num n) [Num m] w = (Inr (Num (n - m)), w)"
  by (simp add: subtract_def)

lemma fst_code_chain:
  "current 0 w = Some st \<Longrightarrow>
   fst (code chain this arguments w) = Inr (Object (txid (transaction st)))"
  by (simp add: chain_def current_def)

lemma keeps_chain: "keeps st a (\<lambda>x. snd (code chain this arguments x))"
  by (auto simp: keeps_def chain_def holds_def callbackProxy_def split: option.splits)

section \<open>Construction\<close>

text \<open>
  C8: constructing a Tracer with an absent agent (transaction factory), whatever the
  context, or with an agent and an absent context, raises an error at construction;
  with both present it succeeds and yields a tracer holding them.
\<close>

theorem Tracer_construction:
  "Tracer None c = Inl (Error ''Must be initialized with an agent.'') \<and>
   Tracer (Some x) None = Inl (Error ''Must include shared context.'') \<and>
   Tracer (Some x) (Some y) = Inr \<lparr>numTransactions = 0, agent = x, context = y\<rparr>"
  by (simp add: Tracer_def)

section \<open>Passing through when nothing is current\<close>

text \<open>
  C7: when no state is current, \<^verbatim>\<open>callbackProxy\<close> returns the handler it was given,
  the same function object, and changes nothing: no closure is built and no state is
  captured.
\<close>

theorem callbackProxy_passthrough:
  "current (context self) w = None \<Longrightarrow> callbackProxy self h w = (h, w)"
  by (simp add: callbackProxy_def current_def)

theorem callbackProxy_passthrough_witness:
  "current (context tracer0) world0 = None \<and> callbackProxy tracer0 echo world0 = (echo, world0)"
proof -
  have h: "current (context tracer0) world0 = None"
    by (simp add: current_world0)
  show ?thesis using h callbackProxy_passthrough [OF h, of echo] by simp
qed

text \<open>
  C6: when no state is current, an invocation of the function returned by
  \<^verbatim>\<open>segmentProxy\<close> is exactly an invocation of the handler with the same receiver and
  arguments in the same world: nothing is entered, no transaction is created, and
  the outcome and the world afterwards are the handler's own.
\<close>

theorem segmentProxy_untraced:
  "current (context self) w = None \<Longrightarrow>
   code (fst (segmentProxy self h w0)) this arguments w = code h this arguments w"
  by (simp add: code_segmentProxy wrapSegmentInvocation_def current_def)

theorem segmentProxy_untraced_witness:
  "current (context tracer0) world0 = None \<and>
   code (fst (segmentProxy tracer0 echo world0)) (Num 7) [Str ''a''] world0
     = (Inr (Num 7), world0)"
proof -
  have h: "current (context tracer0) world0 = None"
    by (simp add: current_world0)
  show ?thesis
    using h segmentProxy_untraced [OF h, of echo world0 "Num 7" "[Str ''a'']"]
    by (simp add: code_echo)
qed

section \<open>Forwarding\<close>

text \<open>
  C9: every wrapper calls the handler with the receiver and the arguments of its own
  call, and its outcome is the handler's outcome: the value the handler returns is
  the value the wrapper returns. This holds of the wrappers of \<^verbatim>\<open>transactionProxy\<close>
  and \<^verbatim>\<open>segmentProxy\<close> in every world; what \<^verbatim>\<open>callbackProxy\<close> returns is either the
  closure built while a state was current (in \<open>wc\<close>), invoked while its variable
  holds a state, or, when nothing was current (in \<open>wn\<close>), the handler itself.
\<close>

theorem wrappers_forward_call:
  "fst (code (fst (transactionProxy self h w0)) this arguments w)
     = fst (code h this arguments (originEntry self h w))
   \<and> fst (code (fst (segmentProxy self h w0)) this arguments w)
     = fst (code h this arguments
         (case current (context self) w of None \<Rightarrow> w | Some s \<Rightarrow> joinEntry self h s w))
   \<and> (current (context self) wc = Some sc \<longrightarrow> vars w (nextObj wc) = Some sv \<longrightarrow>
        fst (code (fst (callbackProxy self h wc)) this arguments w)
          = fst (code h this arguments (callbackEntry self (nextObj wc) h sv w)))
   \<and> (current (context self) wn = None \<longrightarrow>
        fst (code (fst (callbackProxy self h wn)) this arguments w)
          = fst (code h this arguments w))"
proof -
  have tx: "fst (code (fst (transactionProxy self h w0)) this arguments w)
           = fst (code h this arguments (originEntry self h w))"
    by (simp only: code_transactionProxy wrapTransactionInvocation_run fst_case_outcome)
  have seg: "fst (code (fst (segmentProxy self h w0)) this arguments w)
           = fst (code h this arguments
               (case current (context self) w of None \<Rightarrow> w | Some s \<Rightarrow> joinEntry self h s w))"
  proof (cases "current (context self) w")
    case None
    then show ?thesis
      by (simp add: code_segmentProxy wrapSegmentInvocation_def current_def)
  next
    case (Some s)
    then show ?thesis
      by (simp add: code_segmentProxy wrapSegmentInvocation_run fst_case_outcome)
  qed
  have cb: "current (context self) wc = Some sc \<longrightarrow> vars w (nextObj wc) = Some sv \<longrightarrow>
        fst (code (fst (callbackProxy self h wc)) this arguments w)
          = fst (code h this arguments (callbackEntry self (nextObj wc) h sv w))"
  proof (intro impI)
    assume wrap: "current (context self) wc = Some sc"
      and var: "vars w (nextObj wc) = Some sv"
    show "fst (code (fst (callbackProxy self h wc)) this arguments w)
          = fst (code h this arguments (callbackEntry self (nextObj wc) h sv w))"
      by (simp add: code_callbackProxy [OF wrap] wrapCallbackInvocation_run [OF var]
          fst_case_outcome)
  qed
  have pt: "current (context self) wn = None \<longrightarrow>
        fst (code (fst (callbackProxy self h wn)) this arguments w)
          = fst (code h this arguments w)"
    by (simp add: callbackProxy_def current_def)
  from tx seg cb pt show ?thesis by simp
qed

theorem wrappers_forward_call_witness:
  "current (context tracer0) world0 = None \<and>
   fst (code (fst (transactionProxy tracer0 echo world0)) (Num 7) [Str ''a''] world0)
     = Inr (Num 7) \<and>
   fst (code (fst (segmentProxy tracer0 echo world0)) (Num 7) [Str ''a''] world0)
     = Inr (Num 7) \<and>
   current (context tracer0) world4 = Some state1 \<and>
   vars (snd (callbackProxy tracer0 subtract world4)) (nextObj world4) = Some state1 \<and>
   fst (code (fst (transactionProxy tracer0 subtract world4)) (Num 7) [Num 3] world4)
     = Inr (Num 4) \<and>
   fst (code (fst (segmentProxy tracer0 subtract world4)) (Num 7) [Num 3] world4)
     = Inr (Num 4) \<and>
   fst (code (fst (callbackProxy tracer0 subtract world4)) (Num 7) [Num 3]
          (snd (callbackProxy tracer0 subtract world4)))
     = Inr (Num 4) \<and>
   fst (code (fst (callbackProxy tracer0 subtract world0)) (Num 7) [Num 3] world4)
     = Inr (Num 4)"
proof -
  let ?w5 = "snd (callbackProxy tracer0 subtract world4)"
  have none: "current (context tracer0) world0 = None"
    by (simp add: current_world0)
  have wrap: "current (context tracer0) world4 = Some state1"
    by (simp add: tracer0_def current_world4)
  have var: "vars ?w5 (nextObj world4) = Some state1"
    by (rule vars_callbackProxy [OF wrap])
  note e0 = wrappers_forward_call [of tracer0 echo world0 "Num 7" "[Str ''a'']" world0]
  note s4 = wrappers_forward_call [of tracer0 subtract world4 "Num 7" "[Num 3]" world4
      world4 state1 state1 world0]
  note s5 = wrappers_forward_call [of tracer0 subtract world4 "Num 7" "[Num 3]" ?w5
      world4 state1 state1 world0]
  have a: "fst (code (fst (transactionProxy tracer0 echo world0)) (Num 7) [Str ''a''] world0)
     = Inr (Num 7)"
    using e0 by (simp add: code_echo)
  have b: "fst (code (fst (segmentProxy tracer0 echo world0)) (Num 7) [Str ''a''] world0)
     = Inr (Num 7)"
    using e0 by (simp add: code_echo)
  have c: "fst (code (fst (transactionProxy tracer0 subtract world4)) (Num 7) [Num 3] world4)
     = Inr (Num 4)"
    using s4 by (simp add: code_subtract)
  have d: "fst (code (fst (segmentProxy tracer0 subtract world4)) (Num 7) [Num 3] world4)
     = Inr (Num 4)"
    using s4 by (simp add: code_subtract)
  have e: "fst (code (fst (callbackProxy tracer0 subtract world4)) (Num 7) [Num 3] ?w5)
     = Inr (Num 4)"
    using s5 wrap var by (simp add: code_subtract)
  have f: "fst (code (fst (callbackProxy tracer0 subtract world0)) (Num 7) [Num 3] world4)
     = Inr (Num 4)"
    using s4 none by (simp add: code_subtract)
  from none a b wrap var c d e f show ?thesis by simp
qed

section \<open>A handler that throws\<close>

text \<open>
  C1: a wrapper whose handler throws should still exit the state it entered, so
  that what was current before the call is current again once the error has
  reached the caller. The code does not do that. Each wrapper, run on the handler
  \<open>thrower\<close>, lets the error through unchanged, but the state it entered stays
  current: the wrapper of \<^verbatim>\<open>transactionProxy\<close> invoked with nothing current, the
  wrapper of \<^verbatim>\<open>segmentProxy\<close> invoked with \<open>state1\<close> current, and the closure of
  \<^verbatim>\<open>callbackProxy\<close>, built with \<open>state1\<close> current and invoked with nothing current.
\<close>

theorem throw_leaves_state_entered:
  "code (fst (transactionProxy tracer0 thrower world0)) Undefined [] world0
     = (Inl (Error ''boom''), originEntry tracer0 thrower world0) \<and>
   current (context tracer0) world0 = None \<and>
   current (context tracer0)
       (snd (code (fst (transactionProxy tracer0 thrower world0)) Undefined [] world0))
     = Some \<lparr>transaction = \<lparr>txid = 5, creator = 1, trace = \<lparr>root = Segment 6\<rparr>\<rparr>,
             segment = Segment 6, handler = 3\<rparr> \<and>
   code (fst (segmentProxy tracer0 thrower world1)) Undefined [] world1
     = (Inl (Error ''boom''), joinEntry tracer0 thrower state1 world1) \<and>
   current (context tracer0) world1 = Some state1 \<and>
   current (context tracer0)
       (snd (code (fst (segmentProxy tracer0 thrower world1)) Undefined [] world1))
     = Some \<lparr>transaction = \<lparr>txid = 5, creator = 1, trace = \<lparr>root = Segment 6\<rparr>\<rparr>,
             segment = Segment 6, handler = 3\<rparr> \<and>
   code (fst (callbackProxy tracer0 thrower world1)) Undefined [] world2
     = (Inl (Error ''boom''), callbackEntry tracer0 7 thrower state1 world2) \<and>
   current (context tracer0) world2 = None \<and>
   current (context tracer0)
       (snd (code (fst (callbackProxy tracer0 thrower world1)) Undefined [] world2))
     = Some \<lparr>transaction = \<lparr>txid = 5, creator = 1, trace = \<lparr>root = Segment 6\<rparr>\<rparr>,
             segment = Segment 6, handler = 3\<rparr>"
proof -
  have c0: "current (context tracer0) world0 = None"
    by (simp add: current_world0)
  have c1: "current (context tracer0) world1 = Some state1"
    by (simp add: tracer0_def current_world1)
  have c2: "current (context tracer0) world2 = None"
    by (simp add: tracer0_def current_world2)
  have v2: "vars world2 (nextObj world1) = Some state1"
    by (simp add: nextObj_world1 vars_world2)
  have tx: "code (fst (transactionProxy tracer0 thrower world0)) Undefined [] world0
     = (Inl (Error ''boom''), originEntry tracer0 thrower world0)"
    by (simp add: code_transactionProxy wrapTransactionInvocation_run code_thrower)
  have txc: "current (context tracer0) (originEntry tracer0 thrower world0)
     = Some \<lparr>transaction = \<lparr>txid = 5, creator = 1, trace = \<lparr>root = Segment 6\<rparr>\<rparr>,
             segment = Segment 6, handler = 3\<rparr>"
    using current_originEntry [of tracer0 thrower world0]
    by (simp add: originState_def createTransaction_def getTrace_def
        tracer0_def world0_def thrower_def)
  have seg: "code (fst (segmentProxy tracer0 thrower world1)) Undefined [] world1
     = (Inl (Error ''boom''), joinEntry tracer0 thrower state1 world1)"
    by (simp add: code_segmentProxy wrapSegmentInvocation_run [OF c1] code_thrower)
  have segc: "current (context tracer0) (joinEntry tracer0 thrower state1 world1)
     = Some \<lparr>transaction = \<lparr>txid = 5, creator = 1, trace = \<lparr>root = Segment 6\<rparr>\<rparr>,
             segment = Segment 6, handler = 3\<rparr>"
    by (simp add: current_joinEntry inherit_def state1_def thrower_def)
  have cb: "code (fst (callbackProxy tracer0 thrower world1)) Undefined [] world2
     = (Inl (Error ''boom''), callbackEntry tracer0 (nextObj world1) thrower state1 world2)"
    by (simp only: code_callbackProxy [OF c1] wrapCallbackInvocation_run [OF v2] code_thrower)
      simp
  have cbc: "current (context tracer0) (callbackEntry tracer0 (nextObj world1) thrower state1 world2)
     = Some \<lparr>transaction = \<lparr>txid = 5, creator = 1, trace = \<lparr>root = Segment 6\<rparr>\<rparr>,
             segment = Segment 6, handler = 3\<rparr>"
    by (simp add: current_callbackEntry inherit_def state1_def thrower_def)
  have n1: "nextObj world1 = 7" by (rule nextObj_world1)
  show ?thesis
    unfolding tx seg cb using c0 c1 c2 txc segc cbc by (simp add: n1)
qed

section \<open>Originating a transaction\<close>

text \<open>
  C2: every invocation of the function returned by \<^verbatim>\<open>transactionProxy\<close> asks the
  factory for a transaction and runs the handler with a state on that transaction
  and its root segment current. The transaction is new: it differs from the
  transaction of the state that was current at the invocation (which exists
  already, so its address is below the allocator), and the transaction of any later
  invocation (in a world \<open>w'\<close> that this invocation has led to, the handler never
  moving the allocator back) differs from it.
\<close>

theorem transactionProxy_new_transaction:
  assumes ambient: "\<forall>s. current (context self) w = Some s \<longrightarrow> txid (transaction s) < nextObj w"
    and grows: "\<forall>t a x. nextObj x \<le> nextObj (snd (code h t a x))"
    and later: "nextObj (snd (code (fst (transactionProxy self h w0)) this arguments w))
                  \<le> nextObj w'"
  shows "current (context self) (originEntry self h w)
           = Some \<lparr>transaction = fst (createTransaction (agent self) w),
                   segment = root (getTrace (fst (createTransaction (agent self) w))),
                   handler = fid h\<rparr>
       \<and> fst (code (fst (transactionProxy self h w0)) this arguments w)
           = fst (code h this arguments (originEntry self h w))
       \<and> (\<forall>s. current (context self) w = Some s \<longrightarrow>
             transaction s \<noteq> fst (createTransaction (agent self) w))
       \<and> fst (createTransaction (agent self) w') \<noteq> fst (createTransaction (agent self) w)"
proof -
  have a: "current (context self) (originEntry self h w)
           = Some \<lparr>transaction = fst (createTransaction (agent self) w),
                   segment = root (getTrace (fst (createTransaction (agent self) w))),
                   handler = fid h\<rparr>"
    by (simp add: current_originEntry originState_def)
  have b: "fst (code (fst (transactionProxy self h w0)) this arguments w)
           = fst (code h this arguments (originEntry self h w))"
    by (simp only: code_transactionProxy wrapTransactionInvocation_run fst_case_outcome)
  have c: "\<forall>s. current (context self) w = Some s \<longrightarrow>
             transaction s \<noteq> fst (createTransaction (agent self) w)"
  proof (intro allI impI)
    fix s assume "current (context self) w = Some s"
    with ambient have "txid (transaction s) < nextObj w" by simp
    then show "transaction s \<noteq> fst (createTransaction (agent self) w)"
      by (auto simp: createTransaction_def)
  qed
  have "nextObj w + 2 \<le> nextObj (snd (wrapTransactionInvocation self h this arguments w))"
    using grows by (intro nextObj_wrapTransactionInvocation) simp
  with later have "nextObj w < nextObj w'"
    by (simp add: code_transactionProxy)
  then have d: "fst (createTransaction (agent self) w')
                  \<noteq> fst (createTransaction (agent self) w)"
    by (simp add: createTransaction_def)
  from a b c d show ?thesis by simp
qed

theorem transactionProxy_new_transaction_witness:
  "current (context tracer0) world1 = Some state1 \<and>
   txid (transaction state1) = 5 \<and>
   fst (code (fst (transactionProxy tracer0 probe world0)) Undefined [] world1)
     = Inr (Object 7) \<and>
   fst (createTransaction (agent tracer0)
         (snd (code (fst (transactionProxy tracer0 probe world0)) Undefined [] world1)))
     \<noteq> fst (createTransaction (agent tracer0) world1)"
proof -
  have cur: "current (context tracer0) world1 = Some state1"
    by (simp add: tracer0_def current_world1)
  have ambient: "\<forall>s. current (context tracer0) world1 = Some s \<longrightarrow>
      txid (transaction s) < nextObj world1"
    by (simp add: cur nextObj_world1 state1_def)
  have grows: "\<forall>t a x. nextObj x \<le> nextObj (snd (code probe t a x))"
    by (simp add: snd_code_probe)
  have later: "nextObj (snd (code (fst (transactionProxy tracer0 probe world0)) Undefined [] world1))
      \<le> nextObj (snd (code (fst (transactionProxy tracer0 probe world0)) Undefined [] world1))"
    by simp
  note th = transactionProxy_new_transaction [OF ambient grows later]
  have entry: "current 0 (originEntry tracer0 probe world1)
      = Some \<lparr>transaction = fst (createTransaction (agent tracer0) world1),
              segment = root (getTrace (fst (createTransaction (agent tracer0) world1))),
              handler = fid probe\<rparr>"
    using th by (simp add: tracer0_def)
  have "fst (code (fst (transactionProxy tracer0 probe world0)) Undefined [] world1)
      = fst (code probe Undefined [] (originEntry tracer0 probe world1))"
    using th by simp
  also have "\<dots> = Inr (Object 7)"
    by (simp add: code_probe [OF entry] createTransaction_def nextObj_world1)
  finally have r: "fst (code (fst (transactionProxy tracer0 probe world0)) Undefined [] world1)
      = Inr (Object 7)" .
  have d: "fst (createTransaction (agent tracer0)
         (snd (code (fst (transactionProxy tracer0 probe world0)) Undefined [] world1)))
     \<noteq> fst (createTransaction (agent tracer0) world1)"
    using th by simp
  from cur r d show ?thesis by (simp add: state1_def)
qed

section \<open>Joining the current transaction\<close>




section \<open>Callbacks\<close>

text \<open>
  C3: a function returned by \<^verbatim>\<open>callbackProxy\<close> while a state \<open>st\<close> was current, invoked
  later in any world \<open>w\<close> in which its variable is as the wrap left it (whatever is
  current in \<open>w\<close>, another state or none), runs the handler with a state on the
  transaction and the segment of \<open>st\<close> current.
\<close>

theorem callbackProxy_captured_state:
  assumes wrap: "current (context self) w0 = Some st"
    and kept: "vars w (nextObj w0) = vars (snd (callbackProxy self h w0)) (nextObj w0)"
  shows "current (context self) (callbackEntry self (nextObj w0) h st w)
           = Some \<lparr>transaction = transaction st, segment = segment st, handler = fid h\<rparr>
       \<and> code (fst (callbackProxy self h w0)) this arguments w
           = (case code h this arguments (callbackEntry self (nextObj w0) h st w) of
                (Inl e, w3) \<Rightarrow> (Inl e, w3)
              | (Inr v, w3) \<Rightarrow>
                  (Inr v, updContext (context self) (exit (vars w3 (nextObj w0))) w3))"
proof -
  have v: "vars w (nextObj w0) = Some st"
    using kept by (simp add: vars_callbackProxy [OF wrap])
  have a: "current (context self) (callbackEntry self (nextObj w0) h st w)
           = Some \<lparr>transaction = transaction st, segment = segment st, handler = fid h\<rparr>"
    by (simp add: current_callbackEntry inherit_def)
  have b: "code (fst (callbackProxy self h w0)) this arguments w
           = (case code h this arguments (callbackEntry self (nextObj w0) h st w) of
                (Inl e, w3) \<Rightarrow> (Inl e, w3)
              | (Inr v, w3) \<Rightarrow>
                  (Inr v, updContext (context self) (exit (vars w3 (nextObj w0))) w3))"
    by (simp only: code_callbackProxy [OF wrap] wrapCallbackInvocation_run [OF v])
  from a b show ?thesis by simp
qed

theorem callbackProxy_captured_state_witness:
  "current (context tracer0) world1 = Some state1 \<and>
   txid (transaction state1) = 5 \<and>
   current (context tracer0) world2 = None \<and>
   fst (code (fst (callbackProxy tracer0 probe world1)) Undefined [] world2) = Inr (Object 5) \<and>
   current (context tracer0) world3 = Some state3 \<and>
   txid (transaction state3) = 9 \<and>
   fst (code (fst (callbackProxy tracer0 probe world1)) Undefined [] world3) = Inr (Object 5)"
proof -
  have wrap: "current (context tracer0) world1 = Some state1"
    by (simp add: tracer0_def current_world1)
  have v: "vars (snd (callbackProxy tracer0 probe world1)) (nextObj world1) = Some state1"
    by (rule vars_callbackProxy [OF wrap])
  have k2: "vars world2 (nextObj world1)
      = vars (snd (callbackProxy tracer0 probe world1)) (nextObj world1)"
    using v by (simp add: nextObj_world1 vars_world2)
  have k3: "vars world3 (nextObj world1)
      = vars (snd (callbackProxy tracer0 probe world1)) (nextObj world1)"
    using v by (simp add: nextObj_world1 vars_world3)
  note t2 = callbackProxy_captured_state [OF wrap k2, of Undefined "[]"]
  note t3 = callbackProxy_captured_state [OF wrap k3, of Undefined "[]"]
  have e2: "current 0 (callbackEntry tracer0 (nextObj world1) probe state1 world2)
      = Some \<lparr>transaction = transaction state1, segment = segment state1,
              handler = fid probe\<rparr>"
    using t2 by (simp add: tracer0_def)
  have e3: "current 0 (callbackEntry tracer0 (nextObj world1) probe state1 world3)
      = Some \<lparr>transaction = transaction state1, segment = segment state1,
              handler = fid probe\<rparr>"
    using t3 by (simp add: tracer0_def)
  have r2: "fst (code (fst (callbackProxy tracer0 probe world1)) Undefined [] world2)
      = Inr (Object 5)"
  proof -
    have "fst (code (fst (callbackProxy tracer0 probe world1)) Undefined [] world2)
        = fst (code probe Undefined []
                 (callbackEntry tracer0 (nextObj world1) probe state1 world2))"
      using t2 by (simp only: fst_case_outcome)
    then show ?thesis
      unfolding code_probe [OF e2] by (simp add: state1_def)
  qed
  have r3: "fst (code (fst (callbackProxy tracer0 probe world1)) Undefined [] world3)
      = Inr (Object 5)"
  proof -
    have "fst (code (fst (callbackProxy tracer0 probe world1)) Undefined [] world3)
        = fst (code probe Undefined []
                 (callbackEntry tracer0 (nextObj world1) probe state1 world3))"
      using t3 by (simp only: fst_case_outcome)
    then show ?thesis
      unfolding code_probe [OF e3] by (simp add: state1_def)
  qed
  have c2: "current (context tracer0) world2 = None"
    by (simp add: tracer0_def current_world2)
  have c3: "current (context tracer0) world3 = Some state3"
    by (simp add: tracer0_def current_world3)
  from wrap c2 r2 c3 r3 show ?thesis by (simp add: state1_def state3_def)
qed

text \<open>
  C10: after \<^verbatim>\<open>callbackProxy\<close> has returned \<open>f\<close> while a state \<open>st\<close> was current, let
  anything happen: invocations of \<open>f\<close>, each of which assigns the closure variable,
  states entered and left, and other code. Neither the handler nor the other code
  can assign the variable; whatever they do (wrapping further callbacks and
  invoking \<open>f\<close> again included) keeps it. Then the variable holds a state on the
  transaction and the segment of \<open>st\<close>, and the next invocation of \<open>f\<close> assigns it
  the state it builds, on the transaction and the segment of \<open>st\<close>, and runs the
  handler with that state current.
\<close>

theorem callbackProxy_every_invocation:
  assumes wrap: "current (context self) w0 = Some st"
    and frame: "\<forall>t b. keeps st (nextObj w0) (\<lambda>x. snd (code h t b x))"
    and others: "\<forall>g. Run g \<in> set es \<longrightarrow> keeps st (nextObj w0) g"
    and w: "w = happen self (fst (callbackProxy self h w0)) es (snd (callbackProxy self h w0))"
  shows "\<exists>sv. vars w (nextObj w0) = Some sv
       \<and> transaction sv = transaction st \<and> segment sv = segment st
       \<and> vars (callbackEntry self (nextObj w0) h sv w) (nextObj w0)
           = Some \<lparr>transaction = transaction st, segment = segment st, handler = fid h\<rparr>
       \<and> current (context self) (callbackEntry self (nextObj w0) h sv w)
           = Some \<lparr>transaction = transaction st, segment = segment st, handler = fid h\<rparr>
       \<and> code (fst (callbackProxy self h w0)) this arguments w
           = (case code h this arguments (callbackEntry self (nextObj w0) h sv w) of
                (Inl e, w3) \<Rightarrow> (Inl e, w3)
              | (Inr v, w3) \<Rightarrow>
                  (Inr v, updContext (context self) (exit (vars w3 (nextObj w0))) w3))"
proof -
  have "holds st (nextObj w0) (snd (callbackProxy self h w0))"
    by (rule holds_callbackProxy [OF wrap])
  then have "holds st (nextObj w0) w"
    unfolding w callbackProxy_fn [OF wrap] using frame others
    by (intro holds_happen) simp_all
  then obtain sv where sv: "vars w (nextObj w0) = Some sv"
    and eq: "transaction sv = transaction st" "segment sv = segment st"
    by (auto simp: holds_def split: option.splits)
  have a: "vars (callbackEntry self (nextObj w0) h sv w) (nextObj w0)
           = Some \<lparr>transaction = transaction st, segment = segment st, handler = fid h\<rparr>"
    using eq by (simp add: vars_callbackEntry inherit_def)
  have b: "current (context self) (callbackEntry self (nextObj w0) h sv w)
           = Some \<lparr>transaction = transaction st, segment = segment st, handler = fid h\<rparr>"
    using eq by (simp add: current_callbackEntry inherit_def)
  have c: "code (fst (callbackProxy self h w0)) this arguments w
           = (case code h this arguments (callbackEntry self (nextObj w0) h sv w) of
                (Inl e, w3) \<Rightarrow> (Inl e, w3)
              | (Inr v, w3) \<Rightarrow>
                  (Inr v, updContext (context self) (exit (vars w3 (nextObj w0))) w3))"
    by (simp only: code_callbackProxy [OF wrap] wrapCallbackInvocation_run [OF sv])
  from sv eq a b c show ?thesis by blast
qed

theorem callbackProxy_every_invocation_witness:
  "current (context tracer0) world4 = Some state1 \<and>
   txid (transaction state1) = 5 \<and>
   fst (code (fst (callbackProxy tracer0 chain world4)) Undefined []
          (happen tracer0 (fst (callbackProxy tracer0 chain world4))
             [Invoke Undefined [], Exit, Run (\<lambda>x. snd (transactionProxy tracer0 echo x)),
              Invoke (Num 1) [], Enter state3, Invoke Null []]
             (snd (callbackProxy tracer0 chain world4))))
     = Inr (Object 5)"
proof -
  let ?es = "[Invoke Undefined [], Exit, Run (\<lambda>x. snd (transactionProxy tracer0 echo x)),
              Invoke (Num 1) [], Enter state3, Invoke Null []]"
  let ?w = "happen tracer0 (fst (callbackProxy tracer0 chain world4)) ?es
             (snd (callbackProxy tracer0 chain world4))"
  have wrap: "current (context tracer0) world4 = Some state1"
    by (simp add: tracer0_def current_world4)
  have frame: "\<forall>t b. keeps state1 (nextObj world4) (\<lambda>x. snd (code chain t b x))"
    by (simp add: keeps_chain)
  have others: "\<forall>g. Run g \<in> set ?es \<longrightarrow> keeps state1 (nextObj world4) g"
    by (simp add: keeps_transactionProxy)
  have w: "?w = ?w" by simp
  from callbackProxy_every_invocation [OF wrap frame others w, of Undefined "[]"]
  obtain sv where
    e: "current (context tracer0) (callbackEntry tracer0 (nextObj world4) chain sv ?w)
        = Some \<lparr>transaction = transaction state1, segment = segment state1,
                handler = fid chain\<rparr>"
    and c: "code (fst (callbackProxy tracer0 chain world4)) Undefined [] ?w
        = (case code chain Undefined [] (callbackEntry tracer0 (nextObj world4) chain sv ?w) of
             (Inl e, w3) \<Rightarrow> (Inl e, w3)
           | (Inr v, w3) \<Rightarrow>
               (Inr v, updContext (context tracer0) (exit (vars w3 (nextObj world4))) w3))"
    by blast
  have e': "current 0 (callbackEntry tracer0 (nextObj world4) chain sv ?w)
        = Some \<lparr>transaction = transaction state1, segment = segment state1,
                handler = fid chain\<rparr>"
    using e by (simp add: tracer0_def)
  have "fst (code (fst (callbackProxy tracer0 chain world4)) Undefined [] ?w)
      = fst (code chain Undefined [] (callbackEntry tracer0 (nextObj world4) chain sv ?w))"
    unfolding c by (simp only: fst_case_outcome)
  then have r: "fst (code (fst (callbackProxy tracer0 chain world4)) Undefined [] ?w)
      = Inr (Object 5)"
    unfolding fst_code_chain [OF e'] by (simp add: state1_def)
  from wrap r show ?thesis by (simp add: state1_def)
qed

section \<open>Nested calls\<close>

text \<open>
  C4: starting with no state current, any nesting of calls of functions wrapped by
  \<^verbatim>\<open>transactionProxy\<close> and \<^verbatim>\<open>segmentProxy\<close>, whose handlers do nothing but invoke
  further wrapped functions and return, returns normally and leaves no state
  current.
\<close>

theorem nested_calls_leave_no_state:
  "current (context self) w = None \<Longrightarrow>
   (\<exists>v. fst (invoke c self w) = Inr v) \<and> current (context self) (snd (invoke c self w)) = None"
  using balanced_invoke [of c self] by (simp add: balanced_def current_def)

theorem nested_calls_leave_no_state_witness:
  "current (context tracer0) world0 = None \<and>
   fst (invoke (Origin 9 [Join 10 [], Origin 11 [Join 12 []]]) tracer0 world0) = Inr Undefined \<and>
   current (context tracer0)
     (snd (invoke (Origin 9 [Join 10 [], Origin 11 [Join 12 []]]) tracer0 world0)) = None"
proof -
  have h: "current (context tracer0) world0 = None"
    by (simp add: current_world0)
  have r: "fst (invoke (Origin 9 [Join 10 [], Origin 11 [Join 12 []]]) tracer0 world0)
      = Inr Undefined"
    by (simp add: transactionProxy_def segmentProxy_def wrapTransactionInvocation_def
        wrapSegmentInvocation_def createTransaction_def getTrace_def updContext_def enter_def
        exit_def tracer0_def world0_def emptyContext_def Let_def)
  show ?thesis
    using h r nested_calls_leave_no_state [OF h, of "Origin 9 [Join 10 [], Origin 11 [Join 12 []]]"]
    by simp
qed

end
